theory Spec2Isabelle
  imports Main "HOL-Library.Sublist"
begin

section \<open>Text: Python strings, \<open>str.strip\<close>, \<open>readlines\<close>\<close>

text \<open>
  A Python \<open>str\<close> is a sequence of Unicode code points. A code point is modelled as a
  natural number and a string as a list of them; \<open>ustr\<close> turns an ASCII literal into
  such a string.
\<close>

type_synonym pystr = "nat list"

definition ustr :: "string \<Rightarrow> pystr" where
  "ustr s = map of_char s"

definition newline :: nat where
  "newline = 10"

text \<open>
  \<open>str.isspace\<close> for one code point, as CPython decides it for \<open>str.strip()\<close> without
  argument: TAB..CR, FS..US, SPACE, NEL, NBSP and the Unicode space separators.
\<close>

definition isspace :: "nat \<Rightarrow> bool" where
  "isspace c \<longleftrightarrow>
     (9 \<le> c \<and> c \<le> 13) \<or> (28 \<le> c \<and> c \<le> 32) \<or> c = 133 \<or> c = 160 \<or>
     c = 5760 \<or> (8192 \<le> c \<and> c \<le> 8202) \<or> c = 8232 \<or> c = 8233 \<or>
     c = 8239 \<or> c = 8287 \<or> c = 12288"

text \<open>\<open>line.strip()\<close>: leading and trailing whitespace removed.\<close>

definition strip :: "pystr \<Rightarrow> pystr" where
  "strip s = rev (dropWhile isspace (rev (dropWhile isspace s)))"

text \<open>
  A file opened with \<open>open(path, 'r')\<close> is read in text mode with universal newlines:
  \<open>\r\n\<close> and a lone \<open>\r\<close> reach the program as \<open>\n\<close>.
\<close>

fun universal_newlines :: "pystr \<Rightarrow> pystr" where
  "universal_newlines [] = []"
| "universal_newlines (c # cs) =
     (if c = 13 then
        (case cs of
           [] \<Rightarrow> [newline]
         | d # ds \<Rightarrow> if d = newline then newline # universal_newlines ds
                     else newline # universal_newlines cs)
      else c # universal_newlines cs)"

text \<open>
  \<open>f.readlines()\<close>: the text cut after every \<open>\n\<close>; each line keeps its terminator, and
  the last line has none when the text does not end in \<open>\n\<close>.
\<close>

fun readlines :: "pystr \<Rightarrow> pystr list" where
  "readlines [] = []"
| "readlines (c # cs) =
     (if c = newline then [c] # readlines cs
      else (case readlines cs of
              [] \<Rightarrow> [[c]]
            | l # ls \<Rightarrow> (c # l) # ls))"

text \<open>The lines the script gets from \<open>f.readlines()\<close> on a file holding \<open>text\<close>.\<close>

definition text_lines :: "pystr \<Rightarrow> pystr list" where
  "text_lines text = readlines (universal_newlines text)"

section \<open>The scan loop of \<open>extract.py\<close>\<close>

text \<open>
  \<^verbatim>\<open>
  in_sql = False
  sql = []
  for line in lines:
      if line.strip() == '```sql':
          in_sql = True
          continue
      if in_sql and line.strip() == '```':
          break
      if in_sql:
          sql.append(line)
  \<close>
  The two variables the loop updates form the state; one iteration either goes on to
  the next line (\<open>continue\<close>, or falling off the end of the body) or leaves the loop
  (\<open>break\<close>).
\<close>

definition opening_marker :: pystr where
  "opening_marker = ustr ''```sql''"

definition closing_marker :: pystr where
  "closing_marker = ustr ''```''"

record scan =
  in_sql :: bool
  sql :: "pystr list"

datatype flow = Next | Break

definition scan0 :: scan where
  "scan0 = \<lparr>in_sql = False, sql = []\<rparr>"

definition body :: "pystr \<Rightarrow> scan \<Rightarrow> flow \<times> scan" where
  "body line s =
     (if strip line = opening_marker then (Next, s\<lparr>in_sql := True\<rparr>)
      else if in_sql s \<and> strip line = closing_marker then (Break, s)
      else if in_sql s then (Next, s\<lparr>sql := sql s @ [line]\<rparr>)
      else (Next, s))"

fun for_loop :: "pystr list \<Rightarrow> scan \<Rightarrow> scan" where
  "for_loop [] s = s"
| "for_loop (line # lines) s =
     (case body line s of
        (Break, s') \<Rightarrow> s'
      | (Next, s') \<Rightarrow> for_loop lines s')"

definition extract_sql :: "pystr list \<Rightarrow> pystr list" where
  "extract_sql lines = sql (for_loop lines scan0)"

section \<open>The file system the script runs on\<close>

text \<open>
  A path is the list of its components below the root. The file system maps paths to
  nodes; the root is always a directory. A file holds its decoded text (the encoding
  is that of the locale and is not modelled). Whatever else makes the operating system
  refuse an operation on a path (permission bits, a read-only mount) is the predicate
  \<open>denied\<close>, about which nothing is assumed. Standard output is part of the world.
\<close>

type_synonym path = "string list"

datatype node = Dir | File pystr

datatype access = Read | Write | Create | Mkdir

datatype errno = ENOENT | EACCES | EISDIR | ENOTDIR | EEXIST

text \<open>\<open>OSError\<close> with its \<open>errno\<close> and \<open>filename\<close> attributes.\<close>

datatype error = OSError errno path

record world =
  nodes :: "path \<rightharpoonup> node"
  denied :: "access \<Rightarrow> path \<Rightarrow> bool"
  stdout :: pystr

definition node_at :: "world \<Rightarrow> path \<Rightarrow> node option" where
  "node_at w p = (if p = [] then Some Dir else nodes w p)"

definition path_exists :: "world \<Rightarrow> path \<Rightarrow> bool" where
  "path_exists w p \<longleftrightarrow> node_at w p \<noteq> None"

definition path_isdir :: "world \<Rightarrow> path \<Rightarrow> bool" where
  "path_isdir w p \<longleftrightarrow> node_at w p = Some Dir"

text \<open>What an operation on a path that does not exist raises, given its parent.\<close>

definition missing :: "world \<Rightarrow> path \<Rightarrow> errno" where
  "missing w p =
     (case node_at w (butlast p) of
        Some (File _) \<Rightarrow> ENOTDIR
      | _ \<Rightarrow> ENOENT)"

text \<open>\<open>with open(p, 'r') as f: ... f.read()\<close>: the text of the file, or the error raised.\<close>

definition open_read :: "path \<Rightarrow> world \<Rightarrow> error + pystr" where
  "open_read p w =
     (case node_at w p of
        None \<Rightarrow> Inl (OSError (missing w p) p)
      | Some Dir \<Rightarrow> Inl (OSError EISDIR p)
      | Some (File t) \<Rightarrow>
          if denied w Read p then Inl (OSError EACCES p) else Inr t)"

text \<open>\<open>os.mkdir(p)\<close>: one directory, whose parent must be a directory.\<close>

definition mkdir :: "path \<Rightarrow> world \<Rightarrow> error option \<times> world" where
  "mkdir p w =
     (case node_at w p of
        Some _ \<Rightarrow> (Some (OSError EEXIST p), w)
      | None \<Rightarrow>
          (case node_at w (butlast p) of
             Some Dir \<Rightarrow>
               if denied w Mkdir p then (Some (OSError EACCES p), w)
               else (None, w\<lparr>nodes := (nodes w)(p \<mapsto> Dir)\<rparr>)
           | _ \<Rightarrow> (Some (OSError (missing w p) p), w)))"

text \<open>
  The end of \<open>os.makedirs(name, exist_ok=True)\<close>:
  \<^verbatim>\<open>
  try:
      mkdir(name, mode)
  except OSError:
      if not exist_ok or not path.isdir(name):
          raise
  \<close>
\<close>

definition mkdir_exist_ok :: "path \<Rightarrow> world \<Rightarrow> error option \<times> world" where
  "mkdir_exist_ok name w =
     (case mkdir name w of
        (Some e, w') \<Rightarrow> if path_isdir w' name then (None, w') else (Some e, w')
      | (None, w') \<Rightarrow> (None, w'))"

fun errno_of :: "error \<Rightarrow> errno" where
  "errno_of (OSError n p) = n"

text \<open>
  \<open>os.makedirs(name, exist_ok=True)\<close>: when the parent does not exist it is made first,
  by the same procedure, and a \<open>FileExistsError\<close> from there is passed over.
\<close>

function makedirs :: "path \<Rightarrow> world \<Rightarrow> error option \<times> world" where
  "makedirs name w =
     (if name \<noteq> [] \<and> \<not> path_exists w (butlast name) then
        (case makedirs (butlast name) w of
           (Some e, w1) \<Rightarrow>
             if errno_of e = EEXIST then mkdir_exist_ok name w1 else (Some e, w1)
         | (None, w1) \<Rightarrow> mkdir_exist_ok name w1)
      else mkdir_exist_ok name w)"
  by pat_completeness auto
termination
  by (relation "measure (\<lambda>(name, w). length name)") auto

declare makedirs.simps [simp del]

text \<open>
  \<open>with open(p, 'w') as f: f.writelines(ls)\<close>: the file is created, or truncated, and
  holds the lines one after the other. The paths of the script are POSIX paths, where
  text mode writes \<open>\n\<close> as it is.
\<close>

definition open_write :: "path \<Rightarrow> pystr list \<Rightarrow> world \<Rightarrow> error option \<times> world" where
  "open_write p ls w =
     (case node_at w p of
        Some Dir \<Rightarrow> (Some (OSError EISDIR p), w)
      | Some (File _) \<Rightarrow>
          if denied w Write p then (Some (OSError EACCES p), w)
          else (None, w\<lparr>nodes := (nodes w)(p \<mapsto> File (concat ls))\<rparr>)
      | None \<Rightarrow>
          (case node_at w (butlast p) of
             Some Dir \<Rightarrow>
               if denied w Create p then (Some (OSError EACCES p), w)
               else (None, w\<lparr>nodes := (nodes w)(p \<mapsto> File (concat ls))\<rparr>)
           | _ \<Rightarrow> (Some (OSError (missing w p) p), w)))"

section \<open>The script\<close>

definition project :: path where
  "project = [''home'', ''ace'', ''Projects'', ''Study-Sync'']"

definition source_path :: path where
  "source_path = project @ [''database-design.md'']"

definition migrations_dir :: path where
  "migrations_dir = project @ [''studysync-backend'', ''scripts'', ''migrations'']"

definition dest_path :: path where
  "dest_path = migrations_dir @ [''001_initial_schema.sql'']"

text \<open>
  The whole of \<open>extract.py\<close>. Nothing catches an exception: the first error ends the
  run, and the result is that error with the world as it was left.
\<close>

definition main :: "world \<Rightarrow> error option \<times> world" where
  "main w =
     (case open_read source_path w of
        Inl e \<Rightarrow> (Some e, w)
      | Inr text \<Rightarrow>
          (let lines = text_lines text;
               buf = extract_sql lines
           in case makedirs migrations_dir w of
                (Some e, w1) \<Rightarrow> (Some e, w1)
              | (None, w1) \<Rightarrow>
                  (case open_write dest_path buf w1 of
                     (Some e, w2) \<Rightarrow> (Some e, w2)
                   | (None, w2) \<Rightarrow>
                       (None, w2\<lparr>stdout := stdout w2 @ ustr ''Done'' @ [newline]\<rparr>))))"

section \<open>When the destination can be written\<close>

text \<open>
  The conditions on the world under which \<open>os.makedirs\<close> and the \<open>open(..., 'w')\<close>
  after it go through: no component of the directory path is a file and no missing one
  is refused; the destination is not a directory and writing it is not refused.
\<close>

definition can_makedirs :: "world \<Rightarrow> path \<Rightarrow> bool" where
  "can_makedirs w name \<longleftrightarrow>
     list_all (\<lambda>p. case node_at w p of
                      None \<Rightarrow> \<not> denied w Mkdir p
                    | Some Dir \<Rightarrow> True
                    | Some (File _) \<Rightarrow> False) (prefixes name)"

definition can_write :: "world \<Rightarrow> path \<Rightarrow> bool" where
  "can_write w p \<longleftrightarrow>
     (case node_at w p of
        None \<Rightarrow> \<not> denied w Create p
      | Some Dir \<Rightarrow> False
      | Some (File _) \<Rightarrow> \<not> denied w Write p)"

text \<open>
  The shape of a list of lines that \<open>readlines\<close> can return: no line is empty, a
  newline occurs only as the last character of a line, and only the last line may lack
  it.
\<close>

fun well_split :: "pystr list \<Rightarrow> bool" where
  "well_split [] = True"
| "well_split (l # ls) =
     (l \<noteq> [] \<and> newline \<notin> set (butlast l) \<and> (ls \<noteq> [] \<longrightarrow> last l = newline) \<and> well_split ls)"

section \<open>Example worlds\<close>

text \<open>
  A checkout in which only the project directory and the source document exist, and
  one in which the migrations directory and an older destination file are there too.
  Nothing is refused in either.
\<close>

definition fresh_world :: "pystr \<Rightarrow> world" where
  "fresh_world src =
     \<lparr>nodes = [[''home''] \<mapsto> Dir, [''home'', ''ace''] \<mapsto> Dir,
               [''home'', ''ace'', ''Projects''] \<mapsto> Dir, project \<mapsto> Dir,
               source_path \<mapsto> File src],
      denied = (\<lambda>a p. False),
      stdout = []\<rparr>"


section \<open>The scan loop: one iteration, and the three stretches of a run\<close>

lemma markers_distinct: "opening_marker \<noteq> closing_marker"
  by (simp add: opening_marker_def closing_marker_def ustr_def)

lemma body_opening: "strip l = opening_marker \<Longrightarrow> body l s = (Next, s\<lparr>in_sql := True\<rparr>)"
  by (simp add: body_def)

lemma body_closing:
  "in_sql s \<Longrightarrow> strip l = closing_marker \<Longrightarrow> body l s = (Break, s)"
  using markers_distinct by (simp add: body_def)

lemma body_inside:
  "in_sql s \<Longrightarrow> strip l \<noteq> opening_marker \<Longrightarrow> strip l \<noteq> closing_marker \<Longrightarrow>
   body l s = (Next, s\<lparr>sql := sql s @ [l]\<rparr>)"
  by (simp add: body_def)

lemma body_outside:
  "\<not> in_sql s \<Longrightarrow> strip l \<noteq> opening_marker \<Longrightarrow> body l s = (Next, s)"
  by (simp add: body_def)

lemma for_loop_outside:
  "\<not> in_sql s \<Longrightarrow> \<forall>l\<in>set pre. strip l \<noteq> opening_marker \<Longrightarrow>
   for_loop (pre @ rest) s = for_loop rest s"
  by (induction pre) (simp_all add: body_outside)

lemma for_loop_inside:
  "in_sql s \<Longrightarrow> \<forall>l\<in>set mid. strip l \<noteq> closing_marker \<Longrightarrow>
   for_loop (mid @ rest) s =
   for_loop rest (s\<lparr>sql := sql s @ filter (\<lambda>l. strip l \<noteq> opening_marker) mid\<rparr>)"
proof (induction mid arbitrary: s)
  case Nil
  then show ?case by simp
next
  case (Cons l mid)
  show ?case
  proof (cases "strip l = opening_marker")
    case True
    then have "body l s = (Next, s)"
      using Cons.prems(1) by (simp add: body_opening)
    then show ?thesis
      using Cons True by simp
  next
    case False
    then have "body l s = (Next, s\<lparr>sql := sql s @ [l]\<rparr>)"
      using Cons.prems by (simp add: body_inside)
    then show ?thesis
      using Cons.IH [of "s\<lparr>sql := sql s @ [l]\<rparr>"] Cons.prems False by simp
  qed
qed

lemma extract_region:
  assumes "\<forall>l\<in>set pre. strip l \<noteq> opening_marker"
    and "strip opn = opening_marker"
    and "\<forall>l\<in>set mid. strip l \<noteq> closing_marker"
    and "strip cls = closing_marker"
  shows "extract_sql (pre @ opn # mid @ cls # post) =
         filter (\<lambda>l. strip l \<noteq> opening_marker) mid"
proof -
  have "for_loop (pre @ opn # mid @ cls # post) scan0 = for_loop (opn # mid @ cls # post) scan0"
    using assms(1) by (simp add: for_loop_outside scan0_def)
  also have "\<dots> = for_loop (mid @ cls # post) (scan0\<lparr>in_sql := True\<rparr>)"
    using assms(2) by (simp add: body_opening)
  also have "\<dots> = for_loop (cls # post)
      (scan0\<lparr>in_sql := True, sql := filter (\<lambda>l. strip l \<noteq> opening_marker) mid\<rparr>)"
    using assms(3) by (simp add: for_loop_inside scan0_def)
  also have "\<dots> = scan0\<lparr>in_sql := True, sql := filter (\<lambda>l. strip l \<noteq> opening_marker) mid\<rparr>"
    using assms(4) by (simp add: body_closing)
  finally show ?thesis by (simp add: extract_sql_def)
qed

lemma extract_unterminated:
  assumes "\<forall>l\<in>set pre. strip l \<noteq> opening_marker"
    and "strip opn = opening_marker"
    and "\<forall>l\<in>set rest. strip l \<noteq> closing_marker"
  shows "extract_sql (pre @ opn # rest) = filter (\<lambda>l. strip l \<noteq> opening_marker) rest"
proof -
  have "for_loop (pre @ opn # rest) scan0 = for_loop (opn # rest) scan0"
    using assms(1) by (simp add: for_loop_outside scan0_def)
  also have "\<dots> = for_loop (rest @ []) (scan0\<lparr>in_sql := True\<rparr>)"
    using assms(2) by (simp add: body_opening)
  also have "\<dots> = scan0\<lparr>in_sql := True, sql := filter (\<lambda>l. strip l \<noteq> opening_marker) rest\<rparr>"
    using for_loop_inside [of "scan0\<lparr>in_sql := True\<rparr>" rest "[]"] assms(3)
    by (simp add: scan0_def)
  finally show ?thesis by (simp add: extract_sql_def)
qed

lemma extract_no_opening:
  assumes "\<forall>l\<in>set ls. strip l \<noteq> opening_marker"
  shows "extract_sql ls = []"
  using for_loop_outside [of scan0 ls "[]"] assms by (simp add: extract_sql_def scan0_def)


lemma body_no_opening_line:
  assumes "\<forall>l\<in>set (sql s). strip l \<noteq> opening_marker"
  shows "\<forall>l\<in>set (sql (snd (body line s))). strip l \<noteq> opening_marker"
  using assms by (simp add: body_def)

lemma for_loop_no_opening_line:
  "\<forall>l\<in>set (sql s). strip l \<noteq> opening_marker \<Longrightarrow>
   \<forall>l\<in>set (sql (for_loop ls s)). strip l \<noteq> opening_marker"
proof (induction ls arbitrary: s)
  case Nil
  then show ?case by simp
next
  case (Cons line ls)
  obtain f s' where b: "body line s = (f, s')"
    by (cases "body line s")
  have s': "\<forall>l\<in>set (sql s'). strip l \<noteq> opening_marker"
    using body_no_opening_line [OF Cons.prems, of line] b by simp
  show ?case
  proof (cases f)
    case Next
    then show ?thesis using b Cons.IH [OF s'] by simp
  next
    case Break
    then show ?thesis using b s' by simp
  qed
qed

section \<open>Lines and text\<close>

lemma well_split_readlines: "well_split (readlines t)"
proof (induction t)
  case Nil
  then show ?case by simp
next
  case (Cons c cs)
  show ?case
  proof (cases "c = newline")
    case True
    then show ?thesis using Cons by simp
  next
    case False
    then show ?thesis
      using Cons by (cases "readlines cs") auto
  qed
qed

lemma readlines_terminated:
  "newline \<notin> set a \<Longrightarrow> readlines (a @ newline # t) = (a @ [newline]) # readlines t"
  by (induction a) auto

lemma readlines_unterminated:
  "newline \<notin> set a \<Longrightarrow> a \<noteq> [] \<Longrightarrow> readlines a = [a]"
proof (induction a)
  case Nil
  then show ?case by simp
next
  case (Cons c a)
  then show ?case by (cases "a = []") auto
qed

lemma readlines_concat: "well_split ls \<Longrightarrow> readlines (concat ls) = ls"
proof (induction ls)
  case Nil
  then show ?case by simp
next
  case (Cons l ls)
  then have l: "l \<noteq> []" "newline \<notin> set (butlast l)" "ls \<noteq> [] \<longrightarrow> last l = newline"
    and IH: "readlines (concat ls) = ls"
    by simp_all
  have split: "l = butlast l @ [last l]"
    using l(1) by simp
  show ?case
  proof (cases "last l = newline")
    case True
    then have "concat (l # ls) = butlast l @ newline # concat ls"
      using split by (metis append_Cons append_Nil append_assoc concat.simps(2))
    then have "readlines (concat (l # ls)) = (butlast l @ [newline]) # readlines (concat ls)"
      using readlines_terminated [OF l(2), of "concat ls"] by (simp only:)
    then show ?thesis
      using IH True split by simp
  next
    case False
    then have "ls = []" using l(3) by blast
    moreover have "newline \<notin> set l"
      using False l(2) split by (metis Un_iff empty_iff empty_set set_ConsD set_append)
    ultimately show ?thesis
      using readlines_unterminated l(1) by simp
  qed
qed

lemma well_split_remove: "well_split (xs @ l # ys) \<Longrightarrow> well_split (xs @ ys)"
  by (induction xs) auto

lemma well_split_prefix: "well_split (xs @ ys) \<Longrightarrow> well_split xs"
  by (induction xs) auto

lemma well_split_for_loop:
  "well_split (sql s @ rest) \<Longrightarrow> well_split (sql (for_loop rest s))"
proof (induction rest arbitrary: s)
  case Nil
  then show ?case by simp
next
  case (Cons line rest)
  have skip: "well_split (sql s @ rest)"
    using Cons.prems well_split_remove by blast
  have stop: "well_split (sql s)"
    using Cons.prems well_split_prefix by blast
  have "body line s = (Next, s\<lparr>in_sql := True\<rparr>) \<or> body line s = (Break, s)
    \<or> body line s = (Next, s\<lparr>sql := sql s @ [line]\<rparr>) \<or> body line s = (Next, s)"
    by (simp add: body_def)
  then consider (a) "body line s = (Next, s\<lparr>in_sql := True\<rparr>)" | (b) "body line s = (Break, s)"
    | (c) "body line s = (Next, s\<lparr>sql := sql s @ [line]\<rparr>)" | (d) "body line s = (Next, s)"
    by blast
  then show ?case
  proof cases
    case a
    then show ?thesis using Cons.IH [of "s\<lparr>in_sql := True\<rparr>"] skip by simp
  next
    case b
    then show ?thesis using stop by simp
  next
    case c
    then show ?thesis using Cons.IH [of "s\<lparr>sql := sql s @ [line]\<rparr>"] Cons.prems by simp
  next
    case d
    then show ?thesis using Cons.IH [of s] skip by simp
  qed
qed

lemma readlines_written:
  "readlines (concat (extract_sql (text_lines t))) = extract_sql (text_lines t)"
proof -
  have "well_split (sql scan0 @ text_lines t)"
    by (simp add: scan0_def text_lines_def well_split_readlines)
  then show ?thesis
    unfolding extract_sql_def by (intro readlines_concat well_split_for_loop)
qed

lemma extract_sql_no_opening_line: "\<forall>l\<in>set (extract_sql ls). strip l \<noteq> opening_marker"
  unfolding extract_sql_def by (rule for_loop_no_opening_line) (simp add: scan0_def)

section \<open>Creating directories\<close>

lemma mkdir_exist_ok_props:
  assumes "mkdir_exist_ok name w = (r, w')"
  shows "denied w' = denied w" and "stdout w' = stdout w"
    and "nodes w' q = nodes w q \<or> (q = name \<and> nodes w q = None \<and> nodes w' q = Some Dir)"
  using assms
  by (auto simp: mkdir_exist_ok_def mkdir_def node_at_def
      split: option.splits node.splits if_splits prod.splits)

lemma mkdir_exist_ok_None:
  assumes "mkdir_exist_ok name w = (None, w')"
  shows "path_isdir w' name"
  using assms
  by (auto simp: mkdir_exist_ok_def mkdir_def node_at_def path_isdir_def
      split: option.splits node.splits if_splits prod.splits)

lemma mkdir_exist_ok_EEXIST:
  assumes "mkdir_exist_ok name w = (Some e, w')" and "errno_of e = EEXIST"
  shows "path_exists w name"
  using assms
  by (auto simp: mkdir_exist_ok_def mkdir_def path_exists_def missing_def
      split: option.splits node.splits if_splits prod.splits)

lemma mkdir_exist_ok_isdir:
  assumes "path_isdir w name"
  shows "mkdir_exist_ok name w = (None, w)"
  using assms by (simp add: mkdir_exist_ok_def mkdir_def path_isdir_def)

lemma mkdir_exist_ok_create:
  assumes "node_at w name = None" and "path_isdir w (butlast name)"
    and "\<not> denied w Mkdir name"
  shows "fst (mkdir_exist_ok name w) = None"
  using assms by (simp add: mkdir_exist_ok_def mkdir_def path_isdir_def)

lemma prefix_butlast_trans: "prefix q (butlast name) \<Longrightarrow> prefix q name"
  using prefixeq_butlast [of name] by (rule prefix_order.trans [rotated])

lemma makedirs_leaf:
  "name = [] \<or> path_exists w (butlast name) \<Longrightarrow> makedirs name w = mkdir_exist_ok name w"
  by (subst makedirs.simps) auto

lemma makedirs_rec:
  "name \<noteq> [] \<Longrightarrow> \<not> path_exists w (butlast name) \<Longrightarrow>
   makedirs (butlast name) w = (r1, w1) \<Longrightarrow>
   makedirs name w =
     (case r1 of
        None \<Rightarrow> mkdir_exist_ok name w1
      | Some e \<Rightarrow> if errno_of e = EEXIST then mkdir_exist_ok name w1 else (Some e, w1))"
  by (subst makedirs.simps) (simp split: option.splits)


lemma makedirs_props:
  "makedirs name w = (r, w') \<Longrightarrow>
   denied w' = denied w \<and> stdout w' = stdout w \<and>
   (\<forall>q. nodes w' q = nodes w q \<or>
        (prefix q name \<and> nodes w q = None \<and> nodes w' q = Some Dir))"
proof (induction name w arbitrary: r w' rule: makedirs.induct)
  case (1 name w)
  show ?case
  proof (cases "name \<noteq> [] \<and> \<not> path_exists w (butlast name)")
    case False
    then have m: "mkdir_exist_ok name w = (r, w')"
      using "1.prems" makedirs_leaf [of name w] by auto
    have "\<And>q. nodes w' q = nodes w q \<or> (q = name \<and> nodes w q = None \<and> nodes w' q = Some Dir)"
      using mkdir_exist_ok_props(3) [OF m] .
    then have "\<And>q. nodes w' q = nodes w q \<or> (prefix q name \<and> nodes w q = None \<and> nodes w' q = Some Dir)"
      by blast
    then show ?thesis
      using mkdir_exist_ok_props(1,2) [OF m] by simp
  next
    case True
    obtain r1 w1 where rec: "makedirs (butlast name) w = (r1, w1)"
      by (cases "makedirs (butlast name) w")
    have IH: "denied w1 = denied w" "stdout w1 = stdout w"
      "\<And>q. nodes w1 q = nodes w q \<or>
        (prefix q (butlast name) \<and> nodes w q = None \<and> nodes w1 q = Some Dir)"
      using "1.IH" [OF True rec] by simp_all
    have IH': "\<And>q. nodes w1 q = nodes w q \<or>
        (prefix q name \<and> nodes w q = None \<and> nodes w1 q = Some Dir)"
      using IH(3) prefix_butlast_trans by blast
    have unfold: "(r, w') =
       (case r1 of
          None \<Rightarrow> mkdir_exist_ok name w1
        | Some e \<Rightarrow> if errno_of e = EEXIST then mkdir_exist_ok name w1 else (Some e, w1))"
      using makedirs_rec [OF _ _ rec] True "1.prems" by simp
    show ?thesis
    proof (cases "mkdir_exist_ok name w1 = (r, w')")
      case False
      then have "w' = w1"
        using unfold by (simp split: option.splits if_splits)
      then show ?thesis using IH(1,2) IH' by simp
    next
      case m: True
      have step: "\<And>q. nodes w' q = nodes w1 q \<or>
          (q = name \<and> nodes w1 q = None \<and> nodes w' q = Some Dir)"
        using mkdir_exist_ok_props(3) [OF m] .
      have "nodes w' q = nodes w q \<or> (prefix q name \<and> nodes w q = None \<and> nodes w' q = Some Dir)" for q
      proof (cases "nodes w' q = nodes w1 q")
        case True
        then show ?thesis using IH' [of q] by simp
      next
        case False
        then have q: "q = name" "nodes w1 q = None" "nodes w' q = Some Dir"
          using step [of q] by auto
        then have "nodes w q = None"
          using IH' [of q] by auto
        then show ?thesis using q by simp
      qed
      then show ?thesis
        using mkdir_exist_ok_props(1,2) [OF m] IH(1,2) by simp
    qed
  qed
qed

lemma makedirs_node_at:
  assumes "makedirs name w = (r, w')" and "\<not> prefix q name"
  shows "node_at w' q = node_at w q"
  using makedirs_props [OF assms(1)] assms(2) by (auto simp: node_at_def)

lemma makedirs_keeps:
  assumes "makedirs name w = (r, w')" and "node_at w q = Some n"
  shows "node_at w' q = Some n"
  using makedirs_props [OF assms(1)] assms(2)
  by (metis node_at_def option.distinct(1))

lemma not_prefix_butlast: "name \<noteq> [] \<Longrightarrow> \<not> prefix name (butlast name)"
  by (metis length_butlast prefix_length_le diff_less length_greater_0_conv not_le zero_less_one)

lemma makedirs_final:
  assumes "makedirs name w = (r, w')"
  obtains (stop) e where "r = Some e" "errno_of e \<noteq> EEXIST"
  | (final) r1 w1 where "mkdir_exist_ok name w1 = (r, w')" "node_at w1 name = node_at w name"
      "denied w1 = denied w"
      "name = [] \<or> path_exists w (butlast name) \<or> makedirs (butlast name) w = (r1, w1)"
proof (cases "name \<noteq> [] \<and> \<not> path_exists w (butlast name)")
  case False
  then have "mkdir_exist_ok name w = (r, w')"
    using assms makedirs_leaf [of name w] by auto
  then show ?thesis using final [of w] False by auto
next
  case True
  obtain r1 w1 where rec: "makedirs (butlast name) w = (r1, w1)"
    by (cases "makedirs (butlast name) w")
  have unfold: "(r, w') =
     (case r1 of
        None \<Rightarrow> mkdir_exist_ok name w1
      | Some e \<Rightarrow> if errno_of e = EEXIST then mkdir_exist_ok name w1 else (Some e, w1))"
    using makedirs_rec [OF _ _ rec] True assms by simp
  have same: "node_at w1 name = node_at w name"
    using makedirs_node_at [OF rec] True not_prefix_butlast by blast
  have den: "denied w1 = denied w"
    using makedirs_props [OF rec] by simp
  show ?thesis
  proof (cases "mkdir_exist_ok name w1 = (r, w')")
    case True
    then show ?thesis using final [of w1 r1] same den rec by simp
  next
    case False
    then obtain e where "r = Some e" "errno_of e \<noteq> EEXIST"
      using unfold by (auto split: option.splits if_splits)
    then show ?thesis using stop by simp
  qed
qed

lemma makedirs_EEXIST:
  assumes "makedirs name w = (Some e, w')" and "errno_of e = EEXIST"
  shows "path_exists w name"
  using assms(1)
proof (cases rule: makedirs_final)
  case (stop e')
  then show ?thesis using assms(2) by simp
next
  case (final r1 w1)
  then show ?thesis
    using mkdir_exist_ok_EEXIST [OF final(1) assms(2)] by (simp add: path_exists_def)
qed

lemma makedirs_None:
  assumes "makedirs name w = (None, w')"
  shows "path_isdir w' name"
  using assms
proof (cases rule: makedirs_final)
  case (stop e)
  then show ?thesis by simp
next
  case (final r1 w1)
  then show ?thesis using mkdir_exist_ok_None by simp
qed

lemma makedirs_isdir:
  assumes "path_isdir w name" and "name = [] \<or> path_exists w (butlast name)"
  shows "makedirs name w = (None, w)"
  using assms by (simp add: makedirs_leaf mkdir_exist_ok_isdir)

lemma makedirs_None_parent:
  assumes "makedirs name w = (None, w')"
  shows "name = [] \<or> path_exists w' (butlast name)"
proof (cases "name = [] \<or> path_exists w (butlast name)")
  case True
  then show ?thesis
    using makedirs_keeps [OF assms, of "butlast name"] by (auto simp: path_exists_def)
next
  case False
  obtain r1 w1 where rec: "makedirs (butlast name) w = (r1, w1)"
    by (cases "makedirs (butlast name) w")
  have r1: "r1 = None"
  proof (cases r1)
    case (Some e)
    then have "errno_of e = EEXIST"
      using makedirs_rec [OF _ _ rec] False assms by (auto split: if_splits)
    then show ?thesis
      using makedirs_EEXIST [of "butlast name" w e w1] rec Some False by simp
  qed simp
  then have m: "mkdir_exist_ok name w1 = (None, w')"
    using makedirs_rec [OF _ _ rec] False assms by simp
  have "path_isdir w1 (butlast name)"
    using makedirs_None rec r1 by simp
  then have "path_isdir w' (butlast name)"
    using mkdir_exist_ok_props(3) [OF m, of "butlast name"]
    by (auto simp: path_isdir_def node_at_def split: if_splits)
  then show ?thesis by (simp add: path_isdir_def path_exists_def)
qed

lemma can_makedirs_iff:
  "can_makedirs w name \<longleftrightarrow>
   (\<forall>p. prefix p name \<longrightarrow>
      (case node_at w p of
         None \<Rightarrow> \<not> denied w Mkdir p
       | Some Dir \<Rightarrow> True
       | Some (File _) \<Rightarrow> False))"
  by (auto simp: can_makedirs_def list_all_iff)

lemma can_makedirs_butlast: "can_makedirs w name \<Longrightarrow> can_makedirs w (butlast name)"
  unfolding can_makedirs_iff using prefix_butlast_trans by blast

lemma can_makedirs_last:
  assumes "can_makedirs w name"
  shows "path_isdir w name \<or> (node_at w name = None \<and> \<not> denied w Mkdir name)"
proof -
  have "case node_at w name of None \<Rightarrow> \<not> denied w Mkdir name | Some Dir \<Rightarrow> True
        | Some (File _) \<Rightarrow> False"
    using assms unfolding can_makedirs_iff by blast
  then show ?thesis
    by (auto simp: path_isdir_def split: option.splits node.splits)
qed

lemma makedirs_ok: "can_makedirs w name \<Longrightarrow> fst (makedirs name w) = None"
proof (induction name w rule: makedirs.induct)
  case (1 name w)
  note last = can_makedirs_last [OF "1.prems"]
  show ?case
  proof (cases "name \<noteq> [] \<and> \<not> path_exists w (butlast name)")
    case False
    then have leaf: "makedirs name w = mkdir_exist_ok name w"
      using makedirs_leaf [of name w] by auto
    show ?thesis
    proof (cases "path_isdir w name")
      case True
      then show ?thesis using leaf by (simp add: mkdir_exist_ok_isdir)
    next
      case nd: False
      then have n: "node_at w name = None" "\<not> denied w Mkdir name"
        using last by simp_all
      then have "name \<noteq> []" by (auto simp: node_at_def)
      then have "path_exists w (butlast name)" using False by simp
      moreover have "path_isdir w (butlast name) \<or> node_at w (butlast name) = None"
        using can_makedirs_last [OF can_makedirs_butlast [OF "1.prems"]] by auto
      ultimately have "path_isdir w (butlast name)"
        by (auto simp: path_exists_def)
      then show ?thesis
        using leaf n by (simp add: mkdir_exist_ok_create)
    qed
  next
    case True
    obtain r1 w1 where rec: "makedirs (butlast name) w = (r1, w1)"
      by (cases "makedirs (butlast name) w")
    have "fst (makedirs (butlast name) w) = None"
      using "1.IH" [OF True can_makedirs_butlast [OF "1.prems"]] .
    then have r1: "r1 = None" using rec by simp
    then have m: "makedirs name w = mkdir_exist_ok name w1"
      using makedirs_rec [OF _ _ rec] True by simp
    have par: "path_isdir w1 (butlast name)"
      using makedirs_None rec r1 by simp
    have same: "node_at w1 name = node_at w name"
      using makedirs_node_at [OF rec] True not_prefix_butlast by blast
    have den: "denied w1 = denied w"
      using makedirs_props [OF rec] by simp
    show ?thesis
    proof (cases "path_isdir w name")
      case True
      then have "path_isdir w1 name" using same by (simp add: path_isdir_def)
      then show ?thesis using m by (simp add: mkdir_exist_ok_isdir)
    next
      case False
      then have "node_at w1 name = None" "\<not> denied w1 Mkdir name"
        using last same den by simp_all
      then show ?thesis
        using m par by (simp add: mkdir_exist_ok_create)
    qed
  qed
qed

section \<open>The run as a whole\<close>

lemma paths_simps:
  "source_path \<noteq> dest_path" "\<not> prefix source_path migrations_dir"
  "\<not> prefix dest_path migrations_dir" "butlast dest_path = migrations_dir"
  "dest_path \<noteq> []" "source_path \<noteq> []" "migrations_dir \<noteq> []"
  "dest_path \<noteq> migrations_dir" "butlast migrations_dir \<noteq> dest_path"
  by (simp_all add: source_path_def dest_path_def migrations_dir_def project_def)

lemma open_read_Inr:
  "open_read p w = Inr t \<longleftrightarrow> node_at w p = Some (File t) \<and> \<not> denied w Read p"
  by (auto simp: open_read_def split: option.splits node.splits)

lemma open_read_Inl:
  "open_read p w = Inl e \<Longrightarrow> \<exists>n. e = OSError n p"
  by (auto simp: open_read_def split: option.splits node.splits if_splits)

lemma open_write_None:
  "open_write p ls w = (None, w') \<Longrightarrow> w' = w\<lparr>nodes := (nodes w)(p \<mapsto> File (concat ls))\<rparr>"
  by (auto simp: open_write_def split: option.splits node.splits if_splits)

lemma open_write_None_can:
  "open_write p ls w = (None, w') \<Longrightarrow> p \<noteq> [] \<and> can_write w p"
  by (auto simp: open_write_def can_write_def node_at_def split: option.splits node.splits if_splits)

lemma open_write_ok:
  "path_isdir w (butlast p) \<Longrightarrow> can_write w p \<Longrightarrow>
   open_write p ls w = (None, w\<lparr>nodes := (nodes w)(p \<mapsto> File (concat ls))\<rparr>)"
  by (auto simp: open_write_def can_write_def path_isdir_def split: option.splits node.splits)

lemma main_read_error: "open_read source_path w = Inl e \<Longrightarrow> main w = (Some e, w)"
  by (simp add: main_def)

lemma main_None:
  assumes "main w = (None, w')"
  obtains t w1 where "open_read source_path w = Inr t"
    and "makedirs migrations_dir w = (None, w1)"
    and "can_write w1 dest_path"
    and "w' = w1\<lparr>nodes := (nodes w1)(dest_path \<mapsto> File (concat (extract_sql (text_lines t)))),
                  stdout := stdout w1 @ ustr ''Done'' @ [newline]\<rparr>"
proof -
  obtain t where rd: "open_read source_path w = Inr t"
    using assms by (cases "open_read source_path w") (simp_all add: main_def)
  obtain r1 w1 where mk: "makedirs migrations_dir w = (r1, w1)"
    by (cases "makedirs migrations_dir w")
  obtain r2 w2 where wr: "open_write dest_path (extract_sql (text_lines t)) w1 = (r2, w2)"
    by (cases "open_write dest_path (extract_sql (text_lines t)) w1")
  have r1: "r1 = None"
    using assms rd mk by (cases r1) (simp_all add: main_def)
  have r2: "r2 = None"
    using assms rd mk r1 wr by (cases r2) (simp_all add: main_def)
  have "w' = w2\<lparr>stdout := stdout w2 @ ustr ''Done'' @ [newline]\<rparr>"
    using assms rd mk r1 wr r2 by (simp add: main_def)
  moreover have "w2 = w1\<lparr>nodes := (nodes w1)(dest_path \<mapsto> File (concat (extract_sql (text_lines t))))\<rparr>"
    using open_write_None wr r2 by simp
  moreover have "can_write w1 dest_path"
    using open_write_None_can wr r2 by blast
  ultimately show ?thesis
    using that [of t w1] rd mk r1 by simp
qed

lemma main_dest:
  assumes "nodes w source_path = Some (File t)" and "main w = (None, w')"
  shows "nodes w' dest_path = Some (File (concat (extract_sql (text_lines t))))"
  using assms(2)
proof (cases rule: main_None)
  case (1 t' w1)
  then have "t' = t"
    using assms(1) paths_simps by (simp add: open_read_Inr node_at_def)
  then show ?thesis using 1 by simp
qed

lemma main_ok:
  assumes "nodes w source_path = Some (File t)" and "\<not> denied w Read source_path"
    and "can_makedirs w migrations_dir" and "can_write w dest_path"
  shows "fst (main w) = None"
proof -
  have rd: "open_read source_path w = Inr t"
    using assms(1,2) paths_simps by (simp add: open_read_Inr node_at_def)
  obtain r1 w1 where mk: "makedirs migrations_dir w = (r1, w1)"
    by (cases "makedirs migrations_dir w")
  then have r1: "r1 = None"
    using makedirs_ok [OF assms(3)] by simp
  have "path_isdir w1 migrations_dir"
    using makedirs_None mk r1 by simp
  moreover have "can_write w1 dest_path"
    using makedirs_node_at [OF mk, of dest_path] makedirs_props [OF mk] assms(4) paths_simps(3)
    by (auto simp: can_write_def split: option.splits node.splits)
  ultimately have "open_write dest_path ls w1 =
      (None, w1\<lparr>nodes := (nodes w1)(dest_path \<mapsto> File (concat ls))\<rparr>)" for ls
    using open_write_ok [of w1 dest_path] paths_simps by simp
  then show ?thesis
    using rd mk r1 by (simp add: main_def)
qed

lemma main_again:
  assumes "main w = (None, w1)" and "\<not> denied w Write dest_path"
  shows "\<exists>w2. main w1 = (None, w2) \<and> nodes w2 = nodes w1 \<and> denied w2 = denied w1"
  using assms(1)
proof (cases rule: main_None)
  case (1 t v)
  let ?out = "concat (extract_sql (text_lines t))"
  have den: "denied w1 = denied w"
    using makedirs_props [OF 1(2)] 1(4) by simp
  have dest: "node_at w1 dest_path = Some (File ?out)"
    using 1(4) paths_simps by (simp add: node_at_def)
  have other: "node_at w1 q = node_at v q" if "q \<noteq> dest_path" for q
    using 1(4) that by (simp add: node_at_def)
  have "node_at w source_path = Some (File t)" "\<not> denied w Read source_path"
    using 1(1) by (simp_all add: open_read_Inr)
  then have "node_at v source_path = Some (File t)"
    using makedirs_keeps [OF 1(2)] by simp
  then have rd: "open_read source_path w1 = Inr t"
    using other [of source_path] paths_simps den \<open>\<not> denied w Read source_path\<close>
    by (simp add: open_read_Inr)
  have "path_isdir v migrations_dir"
    using makedirs_None [OF 1(2)] .
  then have d1: "path_isdir w1 migrations_dir"
    using other [of migrations_dir] paths_simps by (simp add: path_isdir_def)
  have "path_exists v (butlast migrations_dir)"
    using makedirs_None_parent [OF 1(2)] paths_simps by simp
  then have d2: "path_exists w1 (butlast migrations_dir)"
    using other [of "butlast migrations_dir"] paths_simps by (simp add: path_exists_def)
  have mk: "makedirs migrations_dir w1 = (None, w1)"
    using makedirs_isdir [OF d1] d2 by simp
  have "can_write w1 dest_path"
    using dest den assms(2) by (simp add: can_write_def)
  then have wr: "open_write dest_path ls w1 =
      (None, w1\<lparr>nodes := (nodes w1)(dest_path \<mapsto> File (concat ls))\<rparr>)" for ls
    using open_write_ok [of w1 dest_path] d1 paths_simps by simp
  have "(nodes w1)(dest_path \<mapsto> File ?out) = nodes w1"
    using dest paths_simps by (auto simp: node_at_def)
  then show ?thesis
    using rd mk wr by (simp add: main_def)
qed

lemma main_None_denied:
  assumes "main w = (None, w')"
  shows "denied w' = denied w"
  using assms
proof (cases rule: main_None)
  case (1 t w1)
  then show ?thesis using makedirs_props [OF 1(2)] by simp
qed


lemma fresh_world_runs:
  "nodes (fresh_world src) source_path = Some (File src)"
  "main (fresh_world src) = (None, snd (main (fresh_world src)))"
proof -
  show src: "nodes (fresh_world src) source_path = Some (File src)"
    by (simp add: fresh_world_def)
  have "\<not> denied (fresh_world src) Read source_path"
    by (simp add: fresh_world_def)
  moreover have "can_makedirs (fresh_world src) migrations_dir"
    by (simp add: can_makedirs_def node_at_def fresh_world_def migrations_dir_def project_def
        source_path_def)
  moreover have "can_write (fresh_world src) dest_path"
    by (simp add: can_write_def node_at_def fresh_world_def dest_path_def migrations_dir_def
        project_def source_path_def)
  ultimately have "fst (main (fresh_world src)) = None"
    using main_ok [OF src] by simp
  then show "main (fresh_world src) = (None, snd (main (fresh_world src)))"
    by (simp add: prod_eq_iff)
qed

section \<open>Properties of the extraction\<close>



text \<open>
  C2, as stated, fails: a line whose stripped content is the opening marker, met while
  \<open>in_sql\<close> is true, is not appended to the buffer. The script tests for the opening
  marker first and without looking at \<open>in_sql\<close>.
\<close>

theorem opening_inside_block_counterexample:
  "in_sql \<lparr>in_sql = True, sql = []\<rparr>
   \<and> strip (ustr ''```sql\<newline>'') \<noteq> closing_marker
   \<and> sql (snd (body (ustr ''```sql\<newline>'') \<lparr>in_sql = True, sql = []\<rparr>))
       \<noteq> sql \<lparr>in_sql = True, sql = []\<rparr> @ [ustr ''```sql\<newline>'']"
  by (simp add: body_def strip_def isspace_def ustr_def opening_marker_def closing_marker_def)

text \<open>
  C2, amended. The test for the opening marker is made on every line, whatever
  \<open>in_sql\<close> is: such a line sets \<open>in_sql\<close> and is never appended. A line met while
  \<open>in_sql\<close> is true whose stripped content is neither marker is appended to the buffer
  as it is, and the scan goes on.
\<close>

theorem opening_tested_first:
  "(strip opn = opening_marker \<longrightarrow> body opn s = (Next, s\<lparr>in_sql := True\<rparr>))
   \<and> (in_sql s \<and> strip line \<noteq> opening_marker \<and> strip line \<noteq> closing_marker \<longrightarrow>
        body line s = (Next, s\<lparr>sql := sql s @ [line]\<rparr>))"
  by (simp add: body_opening body_inside)

theorem opening_tested_first_witness:
  "strip (ustr ''  ```sql\<newline>'') = opening_marker
   \<and> body (ustr ''  ```sql\<newline>'') \<lparr>in_sql = True, sql = [ustr ''a\<newline>'']\<rparr>
       = (Next, \<lparr>in_sql = True, sql = [ustr ''a\<newline>'']\<rparr>)
   \<and> in_sql \<lparr>in_sql = True, sql = [ustr ''a\<newline>'']\<rparr>
   \<and> strip (ustr ''b  \<newline>'') \<noteq> opening_marker \<and> strip (ustr ''b  \<newline>'') \<noteq> closing_marker
   \<and> body (ustr ''b  \<newline>'') \<lparr>in_sql = True, sql = [ustr ''a\<newline>'']\<rparr>
       = (Next, \<lparr>in_sql = True, sql = [ustr ''a\<newline>'', ustr ''b  \<newline>'']\<rparr>)"
proof -
  have o: "strip (ustr ''  ```sql\<newline>'') = opening_marker"
    by (simp add: strip_def isspace_def ustr_def opening_marker_def)
  have l: "strip (ustr ''b  \<newline>'') \<noteq> opening_marker" "strip (ustr ''b  \<newline>'') \<noteq> closing_marker"
    by (simp_all add: strip_def isspace_def ustr_def opening_marker_def closing_marker_def)
  show ?thesis
    using opening_tested_first [of "ustr ''  ```sql\<newline>''"
        "\<lparr>in_sql = True, sql = [ustr ''a\<newline>'']\<rparr>" "ustr ''b  \<newline>''"] o l
    by simp
qed

text \<open>
  C3. The scan stops at the first closing marker after the first opening marker: the
  loop ends in the state it had before that line, whatever follows it, further pairs
  of markers included. A run that completes leaves in the destination file lines from
  between these two markers only (all of them but opening marker lines, which are never
  copied).
\<close>

theorem first_block_only:
  assumes "nodes w source_path = Some (File src)"
    and "text_lines src = pre @ opn # mid @ cls # post"
    and "\<forall>l\<in>set pre. strip l \<noteq> opening_marker"
    and "strip opn = opening_marker"
    and "\<forall>l\<in>set mid. strip l \<noteq> closing_marker"
    and "strip cls = closing_marker"
    and "main w = (None, w')"
  shows "for_loop (pre @ opn # mid @ cls # post) scan0 = for_loop (pre @ opn # mid) scan0
    \<and> nodes w' dest_path = Some (File (concat (filter (\<lambda>l. strip l \<noteq> opening_marker) mid)))"
proof -
  let ?kept = "filter (\<lambda>l. strip l \<noteq> opening_marker) mid"
  let ?s = "scan0\<lparr>in_sql := True\<rparr>"
  have start: "for_loop (pre @ opn # rest) scan0 = for_loop rest ?s" for rest
    using assms(3,4) by (simp add: for_loop_outside scan0_def body_opening)
  have "for_loop (mid @ cls # post) ?s = for_loop (cls # post) (?s\<lparr>sql := sql ?s @ ?kept\<rparr>)"
    using assms(5) by (simp add: for_loop_inside scan0_def)
  also have "\<dots> = ?s\<lparr>sql := sql ?s @ ?kept\<rparr>"
    using assms(6) by (simp add: body_closing)
  also have "\<dots> = for_loop (mid @ []) ?s"
    using for_loop_inside [of ?s mid "[]"] assms(5) by (simp add: scan0_def)
  finally have "for_loop (pre @ opn # mid @ cls # post) scan0 = for_loop (pre @ opn # mid) scan0"
    using start [of "mid @ cls # post"] start [of mid] by simp
  moreover have "extract_sql (text_lines src) = ?kept"
    using extract_region [OF assms(3,4,5,6)] assms(2) by simp
  ultimately show ?thesis
    using main_dest [OF assms(1,7)] by simp
qed


theorem first_block_only_witness:
  "text_lines (ustr ''x\<newline>```sql\<newline>A\<newline>```\<newline>y\<newline>```sql\<newline>B\<newline>```\<newline>'') =
     map ustr [''x\<newline>'', ''```sql\<newline>'', ''A\<newline>'', ''```\<newline>'', ''y\<newline>'', ''```sql\<newline>'', ''B\<newline>'', ''```\<newline>'']
   \<and> nodes (snd (main (fresh_world
        (ustr ''x\<newline>```sql\<newline>A\<newline>```\<newline>y\<newline>```sql\<newline>B\<newline>```\<newline>'')))) dest_path =
     Some (File (ustr ''A\<newline>''))"
proof -
  let ?src = "ustr ''x\<newline>```sql\<newline>A\<newline>```\<newline>y\<newline>```sql\<newline>B\<newline>```\<newline>''"
  have lines: "text_lines ?src =
      [ustr ''x\<newline>''] @ ustr ''```sql\<newline>'' # [ustr ''A\<newline>'']
        @ ustr ''```\<newline>'' # map ustr [''y\<newline>'', ''```sql\<newline>'', ''B\<newline>'', ''```\<newline>'']"
    by (simp add: text_lines_def ustr_def newline_def)
  have pre: "\<forall>l\<in>set [ustr ''x\<newline>'']. strip l \<noteq> opening_marker"
    by (simp add: strip_def isspace_def ustr_def opening_marker_def)
  have opn: "strip (ustr ''```sql\<newline>'') = opening_marker"
    by (simp add: strip_def isspace_def ustr_def opening_marker_def)
  have mid: "\<forall>l\<in>set [ustr ''A\<newline>'']. strip l \<noteq> closing_marker"
    by (simp add: strip_def isspace_def ustr_def closing_marker_def)
  have cls: "strip (ustr ''```\<newline>'') = closing_marker"
    by (simp add: strip_def isspace_def ustr_def closing_marker_def)
  have keep: "filter (\<lambda>l. strip l \<noteq> opening_marker) [ustr ''A\<newline>''] = [ustr ''A\<newline>'']"
    by (simp add: strip_def isspace_def ustr_def opening_marker_def)
  have "nodes (snd (main (fresh_world ?src))) dest_path =
      Some (File (concat (filter (\<lambda>l. strip l \<noteq> opening_marker) [ustr ''A\<newline>''])))"
    using first_block_only [OF fresh_world_runs(1) lines pre opn mid cls fresh_world_runs(2)]
    by (rule conjunct2)
  then show ?thesis
    using lines keep by simp
qed

text \<open>
  C4, as stated, fails when a second opening marker line follows the first: with no
  closing marker anywhere, the destination holds neither all the lines after the first
  opening marker nor all the lines after the last one.
\<close>

theorem unterminated_block_counterexample:
  "text_lines (ustr ''```sql\<newline>a\<newline>```sql\<newline>b\<newline>'') =
     ustr ''```sql\<newline>'' # [ustr ''a\<newline>'', ustr ''```sql\<newline>'', ustr ''b\<newline>'']
   \<and> strip (ustr ''```sql\<newline>'') = opening_marker
   \<and> strip (ustr ''a\<newline>'') \<noteq> closing_marker
   \<and> strip (ustr ''```sql\<newline>'') \<noteq> closing_marker
   \<and> strip (ustr ''b\<newline>'') \<noteq> closing_marker
   \<and> fst (main (fresh_world (ustr ''```sql\<newline>a\<newline>```sql\<newline>b\<newline>''))) = None
   \<and> nodes (snd (main (fresh_world (ustr ''```sql\<newline>a\<newline>```sql\<newline>b\<newline>'')))) dest_path
       = Some (File (ustr ''a\<newline>b\<newline>''))
   \<and> ustr ''a\<newline>b\<newline>''
       \<noteq> concat [ustr ''a\<newline>'', ustr ''```sql\<newline>'', ustr ''b\<newline>'']
   \<and> ustr ''a\<newline>b\<newline>'' \<noteq> concat [ustr ''b\<newline>'']"
proof -
  let ?src = "ustr ''```sql\<newline>a\<newline>```sql\<newline>b\<newline>''"
  have lines: "text_lines ?src =
      ustr ''```sql\<newline>'' # [ustr ''a\<newline>'', ustr ''```sql\<newline>'', ustr ''b\<newline>'']"
    by (simp add: text_lines_def ustr_def newline_def)
  have out: "concat (extract_sql (text_lines ?src)) = ustr ''a\<newline>b\<newline>''"
    unfolding lines
    by (simp add: extract_sql_def scan0_def body_def strip_def isspace_def ustr_def
        opening_marker_def closing_marker_def)
  have "nodes (snd (main (fresh_world ?src))) dest_path = Some (File (ustr ''a\<newline>b\<newline>''))"
    using main_dest [OF fresh_world_runs] out by simp
  moreover have "fst (main (fresh_world ?src)) = None"
    using fresh_world_runs(2) [of ?src] by (metis fst_conv)
  moreover have "strip (ustr ''```sql\<newline>'') = opening_marker"
      "strip (ustr ''a\<newline>'') \<noteq> closing_marker"
      "strip (ustr ''```sql\<newline>'') \<noteq> closing_marker"
      "strip (ustr ''b\<newline>'') \<noteq> closing_marker"
    by (simp_all add: strip_def isspace_def ustr_def opening_marker_def closing_marker_def)
  moreover have "ustr ''a\<newline>b\<newline>'' \<noteq> concat [ustr ''a\<newline>'', ustr ''```sql\<newline>'', ustr ''b\<newline>'']"
      "ustr ''a\<newline>b\<newline>'' \<noteq> concat [ustr ''b\<newline>'']"
    by (simp_all add: ustr_def)
  ultimately show ?thesis
    using lines by simp
qed

text \<open>
  C4, amended. When no closing marker follows the first opening marker, a run that
  completes leaves in the destination file all the lines after that opening marker, in
  order, up to the end of the input, except further opening marker lines.
\<close>

theorem unterminated_block:
  assumes "nodes w source_path = Some (File src)"
    and "text_lines src = pre @ opn # rest"
    and "\<forall>l\<in>set pre. strip l \<noteq> opening_marker"
    and "strip opn = opening_marker"
    and "\<forall>l\<in>set rest. strip l \<noteq> closing_marker"
    and "main w = (None, w')"
  shows "nodes w' dest_path = Some (File (concat (filter (\<lambda>l. strip l \<noteq> opening_marker) rest)))"
  using main_dest [OF assms(1,6)] extract_unterminated [OF assms(3,4,5)] assms(2) by simp

theorem unterminated_block_witness:
  "text_lines (ustr ''intro\<newline>```sql\<newline>a\<newline>b'') =
     map ustr [''intro\<newline>'', ''```sql\<newline>'', ''a\<newline>'', ''b'']
   \<and> nodes (snd (main (fresh_world (ustr ''intro\<newline>```sql\<newline>a\<newline>b'')))) dest_path =
     Some (File (ustr ''a\<newline>b''))"
proof -
  let ?src = "ustr ''intro\<newline>```sql\<newline>a\<newline>b''"
  have lines: "text_lines ?src =
      [ustr ''intro\<newline>''] @ ustr ''```sql\<newline>'' # [ustr ''a\<newline>'', ustr ''b'']"
    by (simp add: text_lines_def ustr_def newline_def)
  have pre: "\<forall>l\<in>set [ustr ''intro\<newline>'']. strip l \<noteq> opening_marker"
    by (simp add: strip_def isspace_def ustr_def opening_marker_def)
  have opn: "strip (ustr ''```sql\<newline>'') = opening_marker"
    by (simp add: strip_def isspace_def ustr_def opening_marker_def)
  have rest: "\<forall>l\<in>set [ustr ''a\<newline>'', ustr ''b'']. strip l \<noteq> closing_marker"
    by (simp add: strip_def isspace_def ustr_def closing_marker_def)
  have keep: "filter (\<lambda>l. strip l \<noteq> opening_marker) [ustr ''a\<newline>'', ustr ''b'']
      = [ustr ''a\<newline>'', ustr ''b'']"
    by (simp add: strip_def isspace_def ustr_def opening_marker_def)
  have "nodes (snd (main (fresh_world ?src))) dest_path =
      Some (File (concat (filter (\<lambda>l. strip l \<noteq> opening_marker) [ustr ''a\<newline>'', ustr ''b''])))"
    using unterminated_block [OF fresh_world_runs(1) lines pre opn rest fresh_world_runs(2)] .
  then show ?thesis
    using lines keep by (simp add: ustr_def)
qed

text \<open>
  C5. When no line of the source is an opening marker, a run on a world whose source can
  be read and whose destination can be written raises nothing and leaves the destination
  file empty.
\<close>

theorem no_marker_empty_file:
  assumes "nodes w source_path = Some (File src)"
    and "\<not> denied w Read source_path"
    and "\<forall>l\<in>set (text_lines src). strip l \<noteq> opening_marker"
    and "can_makedirs w migrations_dir"
    and "can_write w dest_path"
  shows "fst (main w) = None \<and> nodes (snd (main w)) dest_path = Some (File [])"
proof -
  have ok: "fst (main w) = None"
    using main_ok [OF assms(1,2,4,5)] .
  then have "main w = (None, snd (main w))"
    by (simp add: prod_eq_iff)
  then have "nodes (snd (main w)) dest_path = Some (File (concat (extract_sql (text_lines src))))"
    using main_dest [OF assms(1)] by simp
  then show ?thesis
    using ok extract_no_opening [OF assms(3)] by simp
qed

theorem no_marker_empty_file_witness:
  "fst (main (fresh_world (ustr ''# Notes\<newline>```\<newline>plain\<newline>```\<newline>''))) = None
   \<and> nodes (snd (main (fresh_world (ustr ''# Notes\<newline>```\<newline>plain\<newline>```\<newline>'')))) dest_path
       = Some (File [])"
proof -
  let ?src = "ustr ''# Notes\<newline>```\<newline>plain\<newline>```\<newline>''"
  have lines: "text_lines ?src = map ustr [''# Notes\<newline>'', ''```\<newline>'', ''plain\<newline>'', ''```\<newline>'']"
    by (simp add: text_lines_def ustr_def newline_def)
  have none: "\<forall>l\<in>set (text_lines ?src). strip l \<noteq> opening_marker"
    unfolding lines by (simp add: strip_def isspace_def ustr_def opening_marker_def)
  have rd: "\<not> denied (fresh_world ?src) Read source_path"
    by (simp add: fresh_world_def)
  have mk: "can_makedirs (fresh_world ?src) migrations_dir"
    by (simp add: can_makedirs_def node_at_def fresh_world_def migrations_dir_def project_def
        source_path_def)
  have wr: "can_write (fresh_world ?src) dest_path"
    by (simp add: can_write_def node_at_def fresh_world_def dest_path_def migrations_dir_def
        project_def source_path_def)
  show ?thesis
    using no_marker_empty_file [OF fresh_world_runs(1) rd none mk wr] .
qed

text \<open>
  C6. After a run that completes, the destination holds a text that depends on the
  source only; a second run that completes leaves the same text there, and the same
  file system altogether.
\<close>

theorem rerun_same_content:
  assumes "nodes w source_path = Some (File src)"
    and "main w = (None, w1)"
    and "main w1 = (None, w2)"
  shows "nodes w1 dest_path = Some (File (concat (extract_sql (text_lines src))))
    \<and> nodes w2 dest_path = nodes w1 dest_path
    \<and> nodes w2 = nodes w1"
proof -
  have first: "nodes w1 dest_path = Some (File (concat (extract_sql (text_lines src))))"
    using main_dest [OF assms(1,2)] .
  from assms(3) have "\<not> denied w1 Write dest_path"
  proof (cases rule: main_None)
    case (1 t v)
    have "node_at v dest_path = node_at w1 dest_path"
      using makedirs_node_at [OF 1(2)] paths_simps(3) by simp
    then have "\<not> denied v Write dest_path"
      using 1(3) first paths_simps(5) by (simp add: can_write_def node_at_def)
    then show ?thesis
      using makedirs_props [OF 1(2)] by simp
  qed
  then have "\<not> denied w Write dest_path"
    using main_None_denied [OF assms(2)] by simp
  then obtain w2' where "main w1 = (None, w2')" "nodes w2' = nodes w1"
    using main_again [OF assms(2)] by blast
  then have "nodes w2 = nodes w1"
    using assms(3) by simp
  then show ?thesis
    using first by simp
qed

theorem rerun_same_content_witness:
  "nodes (snd (main (fresh_world (ustr ''```sql\<newline>SELECT 1;\<newline>```\<newline>'')))) dest_path
     = Some (File (ustr ''SELECT 1;\<newline>''))
   \<and> nodes (snd (main (snd (main (fresh_world (ustr ''```sql\<newline>SELECT 1;\<newline>```\<newline>''))))))
     = nodes (snd (main (fresh_world (ustr ''```sql\<newline>SELECT 1;\<newline>```\<newline>''))))"
proof -
  let ?src = "ustr ''```sql\<newline>SELECT 1;\<newline>```\<newline>''"
  let ?w1 = "snd (main (fresh_world ?src))"
  have "\<not> denied (fresh_world ?src) Write dest_path"
    by (simp add: fresh_world_def)
  then obtain w2 where "main ?w1 = (None, w2)"
    using main_again [OF fresh_world_runs(2)] by blast
  then have second: "main ?w1 = (None, snd (main ?w1))"
    by simp
  have out: "concat (extract_sql (text_lines ?src)) = ustr ''SELECT 1;\<newline>''"
    by (simp add: text_lines_def extract_sql_def scan0_def body_def strip_def isspace_def
        ustr_def newline_def opening_marker_def closing_marker_def)
  show ?thesis
    using rerun_same_content [OF fresh_world_runs second] out by simp
qed

section \<open>Properties of the file operations\<close>



text \<open>
  C8. When the source path is not a file the process may read (it is missing, it is a
  directory, or reading it is refused), the run ends with an \<open>OSError\<close> whose file name
  is the source path, and nothing is printed: no later statement is executed.
\<close>

theorem source_unreadable_error:
  assumes "\<forall>t. nodes w source_path = Some (File t) \<longrightarrow> denied w Read source_path"
  shows "\<exists>n. fst (main w) = Some (OSError n source_path) \<and> stdout (snd (main w)) = stdout w"
proof -
  have "\<exists>e. open_read source_path w = Inl e"
    using assms paths_simps(6)
    by (auto simp: open_read_def node_at_def split: option.splits node.splits)
  then obtain e where e: "open_read source_path w = Inl e"
    by blast
  then obtain n where "e = OSError n source_path"
    using open_read_Inl by blast
  then show ?thesis
    using main_read_error [OF e] by simp
qed

theorem source_unreadable_error_witness:
  "fst (main \<lparr>nodes = Map.empty, denied = (\<lambda>a p. False), stdout = []\<rparr>)
     = Some (OSError ENOENT source_path)
   \<and> stdout (snd (main \<lparr>nodes = Map.empty, denied = (\<lambda>a p. False), stdout = []\<rparr>)) = []
   \<and> fst (main ((fresh_world (ustr ''x''))\<lparr>denied := (\<lambda>a p. a = Read)\<rparr>))
     = Some (OSError EACCES source_path)"
proof -
  let ?w = "\<lparr>nodes = Map.empty, denied = (\<lambda>a p. False), stdout = []\<rparr>"
  let ?v = "(fresh_world (ustr ''x''))\<lparr>denied := (\<lambda>a p. a = Read)\<rparr>"
  have "\<forall>t. nodes ?w source_path = Some (File t) \<longrightarrow> denied ?w Read source_path"
    by simp
  then have w: "\<exists>n. fst (main ?w) = Some (OSError n source_path) \<and> stdout (snd (main ?w)) = stdout ?w"
    by (rule source_unreadable_error)
  have "\<forall>t. nodes ?v source_path = Some (File t) \<longrightarrow> denied ?v Read source_path"
    by simp
  then have v: "\<exists>n. fst (main ?v) = Some (OSError n source_path) \<and> stdout (snd (main ?v)) = stdout ?v"
    by (rule source_unreadable_error)
  have "open_read source_path ?w = Inl (OSError ENOENT source_path)"
    by (simp add: open_read_def node_at_def missing_def source_path_def project_def)
  then have "fst (main ?w) = Some (OSError ENOENT source_path)"
    by (simp add: main_read_error)
  moreover have "open_read source_path ?v = Inl (OSError EACCES source_path)"
    by (simp add: open_read_def node_at_def fresh_world_def source_path_def project_def)
  then have "fst (main ?v) = Some (OSError EACCES source_path)"
    by (simp add: main_read_error)
  ultimately show ?thesis
    using w v by simp
qed

text \<open>
  C10. When opening the source raises, the run ends with that error in the world it
  started from: no directory is made, the destination is neither created nor changed,
  and nothing is printed.
\<close>

theorem read_failure_no_effect:
  assumes "open_read source_path w = Inl e"
  shows "main w = (Some e, w)"
  using assms by (simp add: main_def)

theorem read_failure_no_effect_witness:
  "open_read source_path \<lparr>nodes = [project \<mapsto> Dir], denied = (\<lambda>a p. False), stdout = []\<rparr>
     = Inl (OSError ENOENT source_path)
   \<and> main \<lparr>nodes = [project \<mapsto> Dir], denied = (\<lambda>a p. False), stdout = []\<rparr>
     = (Some (OSError ENOENT source_path),
        \<lparr>nodes = [project \<mapsto> Dir], denied = (\<lambda>a p. False), stdout = []\<rparr>)"
proof -
  let ?w = "\<lparr>nodes = [project \<mapsto> Dir], denied = (\<lambda>a p. False), stdout = []\<rparr>"
  have rd: "open_read source_path ?w = Inl (OSError ENOENT source_path)"
    by (simp add: open_read_def node_at_def missing_def source_path_def project_def)
  show ?thesis
    using read_failure_no_effect [OF rd] rd by simp
qed

text \<open>
  C9. Whatever the lines scanned, no line of the buffer is an opening marker line; and
  after a run that completes, no line of the destination file's text is one.
\<close>

theorem no_opening_line_in_output:
  assumes "nodes w source_path = Some (File src)" and "main w = (None, w')"
  shows "(\<forall>l\<in>set (extract_sql ls). strip l \<noteq> opening_marker)
    \<and> (\<exists>out. nodes w' dest_path = Some (File out)
          \<and> (\<forall>l\<in>set (readlines out). strip l \<noteq> opening_marker))"
proof -
  let ?out = "concat (extract_sql (text_lines src))"
  have "nodes w' dest_path = Some (File ?out)"
    using main_dest [OF assms] .
  moreover have "\<forall>l\<in>set (readlines ?out). strip l \<noteq> opening_marker"
    using extract_sql_no_opening_line [of "text_lines src"] by (simp add: readlines_written)
  ultimately show ?thesis
    using extract_sql_no_opening_line [of ls] by blast
qed

theorem no_opening_line_in_output_witness:
  "nodes (snd (main (fresh_world
      (ustr ''```sql\<newline>A\<newline> ```sql \<newline>B\<newline>```\<newline>```sql\<newline>C\<newline>'')))) dest_path
     = Some (File (ustr ''A\<newline>B\<newline>''))
   \<and> readlines (ustr ''A\<newline>B\<newline>'') = [ustr ''A\<newline>'', ustr ''B\<newline>'']
   \<and> strip (ustr ''A\<newline>'') \<noteq> opening_marker
   \<and> strip (ustr ''B\<newline>'') \<noteq> opening_marker"
proof -
  let ?src = "ustr ''```sql\<newline>A\<newline> ```sql \<newline>B\<newline>```\<newline>```sql\<newline>C\<newline>''"
  let ?w' = "snd (main (fresh_world ?src))"
  have out: "concat (extract_sql (text_lines ?src)) = ustr ''A\<newline>B\<newline>''"
    by (simp add: text_lines_def extract_sql_def scan0_def body_def strip_def isspace_def
        ustr_def newline_def opening_marker_def closing_marker_def)
  have dest: "nodes ?w' dest_path = Some (File (ustr ''A\<newline>B\<newline>''))"
    using main_dest [OF fresh_world_runs] out by simp
  have rl: "readlines (ustr ''A\<newline>B\<newline>'') = [ustr ''A\<newline>'', ustr ''B\<newline>'']"
    by (simp add: ustr_def newline_def)
  obtain out' where "nodes ?w' dest_path = Some (File out')"
      "\<forall>l\<in>set (readlines out'). strip l \<noteq> opening_marker"
    using no_opening_line_in_output [OF fresh_world_runs] by blast
  then have "\<forall>l\<in>set (readlines (ustr ''A\<newline>B\<newline>'')). strip l \<noteq> opening_marker"
    using dest by simp
  then show ?thesis
    using dest rl by simp
qed

end
